theory Spec2Isabelle
  imports Main "HOL-Library.Word"
begin

section \<open>Values and type-erased result storage\<close>

text \<open>
  The runtime passes results around as \<^verbatim>\<open>std::shared_ptr<void>\<close>: a pointer to an
  object whose type only the producer and the consumer know. The object keeps its dynamic
  type in the model, so that reading it at another type is a visible error instead of
  the undefined behaviour of the C++ cast. The pointee is never written after
  \<^verbatim>\<open>make_shared\<close>, so shared ownership is modelled by copying the pointee;
  \<open>None\<close> is the empty pointer.
\<close>

datatype ty = TInt | TBool | TChar

datatype val = VInt "32 word" | VBool bool | VChar "8 word"

fun type_of :: "val \<Rightarrow> ty" where
  "type_of (VInt _) = TInt"
| "type_of (VBool _) = TBool"
| "type_of (VChar _) = TChar"

text \<open>Undefined behaviour of the C++ code is an error value of the model.\<close>

datatype error =
    NullDeref        \<comment> \<open>dereferencing an empty data pointer\<close>
  | TypeMismatch     \<comment> \<open>reading the stored object at a type it does not have\<close>
  | InvalidHandle    \<comment> \<open>using a null or destroyed coroutine handle\<close>
  | ResumeDone       \<comment> \<open>resuming a coroutine suspended at its final suspend point\<close>
  | OutOfRange       \<comment> \<open>indexing the scheduler's vector past its end\<close>

type_synonym shared_ptr = "val option"

text \<open>A raw pointer \<^verbatim>\<open>T *\<close>: the static type it is read at, and the pointee.\<close>

datatype typed_ptr = TypedPtr ty "val option"

definition make_shared :: "val \<Rightarrow> shared_ptr" where
  "make_shared v = Some v"

definition reset :: "shared_ptr \<Rightarrow> shared_ptr" where
  "reset p = None"

text \<open>\<^verbatim>\<open>m_data.get()\<close> on a \<^verbatim>\<open>shared_ptr<void>\<close>: the raw \<^verbatim>\<open>void *\<close>.\<close>

definition get_void :: "shared_ptr \<Rightarrow> val option" where
  "get_void p = p"

text \<open>The C-style cast \<^verbatim>\<open>(T *) p\<close> of a \<^verbatim>\<open>void *\<close>.\<close>

definition cast_ptr :: "ty \<Rightarrow> val option \<Rightarrow> typed_ptr" where
  "cast_ptr T p = TypedPtr T p"

text \<open>
  \<^verbatim>\<open>std::static_pointer_cast<T>(p)\<close>: a \<^verbatim>\<open>shared_ptr<T>\<close> sharing ownership with
  \<open>p\<close>; its stored pointer is \<^verbatim>\<open>static_cast<T *>(p.get())\<close>. The typed shared pointer is
  represented by the raw typed pointer it stores, which \<^verbatim>\<open>.get()\<close> returns.
\<close>

definition static_pointer_cast :: "ty \<Rightarrow> shared_ptr \<Rightarrow> typed_ptr" where
  "static_pointer_cast T p = TypedPtr T p"

definition get_typed :: "typed_ptr \<Rightarrow> typed_ptr" where
  "get_typed p = p"

text \<open>\<^verbatim>\<open>*p\<close> for a \<^verbatim>\<open>T *\<close>.\<close>

fun deref :: "typed_ptr \<Rightarrow> error + val" where
  "deref (TypedPtr T None) = Inl NullDeref"
| "deref (TypedPtr T (Some v)) = (if type_of v = T then Inr v else Inl TypeMismatch)"

text \<open>The value cast \<^verbatim>\<open>(T) x\<close> of an \<open>x\<close> that already has type \<open>T\<close>.\<close>

definition cast_val :: "ty \<Rightarrow> error + val \<Rightarrow> error + val" where
  "cast_val T r = (case r of Inl e \<Rightarrow> Inl e
                   | Inr v \<Rightarrow> if type_of v = T then Inr v else Inl TypeMismatch)"

subsection \<open>Class \<^verbatim>\<open>Result\<close>\<close>

datatype Result = Result (Result_m_data: shared_ptr)

text \<open>\<^verbatim>\<open>Result::result<T>\<close> of the single header: \<^verbatim>\<open>(T) *((T *) m_data.get())\<close>.\<close>

definition result :: "ty \<Rightarrow> Result \<Rightarrow> error + val" where
  "result T r = cast_val T (deref (cast_ptr T (get_void (Result_m_data r))))"

text \<open>
  \<^verbatim>\<open>Result::result<T>\<close> of \<^verbatim>\<open>result.hpp\<close>:
  \<^verbatim>\<open>*std::static_pointer_cast<T>(m_data).get()\<close>.
\<close>

definition result_hpp :: "ty \<Rightarrow> Result \<Rightarrow> error + val" where
  "result_hpp T r = deref (get_typed (static_pointer_cast T (Result_m_data r)))"

section \<open>Coroutine frames\<close>

text \<open>
  A coroutine handle is the address of a frame, or null. The body of a coroutine is user
  code; what the runtime sees of it is its sequence of suspension points, each of which
  always suspends: \<^verbatim>\<open>co_yield\<close>, \<^verbatim>\<open>co_await child()\<close> (the child's body, and the type
  at which the parent reads the awaited \<^verbatim>\<open>Result\<close>, if it reads it), and the final
  \<^verbatim>\<open>co_return v\<close>.
\<close>

type_synonym addr = nat

type_synonym PromiseHandle = "addr option"

datatype body =
    CoYield body
  | CoAwait body "ty option" body
  | CoReturn val

text \<open>
  Where a frame is suspended: before the rest of its body (at the initial suspend point or
  after a \<^verbatim>\<open>co_yield\<close>), inside a \<^verbatim>\<open>co_await\<close> (the frame then holds the temporary
  \<^verbatim>\<open>Task\<close> of the child, whose handle the \<^verbatim>\<open>Awaiter\<close> refers to), or at the final
  suspend point.
\<close>

datatype point =
    Run body
  | Awaiting PromiseHandle "ty option" body
  | Final

record Promise =
  m_done :: "2 word"
  m_data :: shared_ptr
  m_next :: PromiseHandle
  m_previous :: PromiseHandle

text \<open>
  The frame: the promise, the resume point, and the values the body has read from the
  tasks it awaited (its local variables).
\<close>

record frame = Promise +
  point :: point
  observed :: "val list"

text \<open>The frame store: an address is an index, \<open>None\<close> a destroyed frame.\<close>

type_synonym heap = "frame option list"

text \<open>\<^verbatim>\<open>handle.promise()\<close>; \<open>None\<close> when the handle is null or its frame is gone.\<close>

definition promise :: "heap \<Rightarrow> PromiseHandle \<Rightarrow> frame option" where
  "promise h p = (case p of None \<Rightarrow> None
                  | Some a \<Rightarrow> if a < length h then h ! a else None)"

text \<open>A write through a handle that was checked to be valid.\<close>

definition modify :: "addr \<Rightarrow> (frame \<Rightarrow> frame) \<Rightarrow> heap \<Rightarrow> heap" where
  "modify a g h = (case promise h (Some a) of None \<Rightarrow> h | Some f \<Rightarrow> h[a := Some (g f)])"

subsection \<open>\<^verbatim>\<open>Task::Promise\<close>\<close>

definition yield_value :: "addr \<Rightarrow> frame \<Rightarrow> frame" where
  "yield_value this f = f\<lparr>m_next := Some this\<rparr>"

definition return_value :: "val \<Rightarrow> frame \<Rightarrow> frame" where
  "return_value v f = f\<lparr>m_data := make_shared v\<rparr>"

definition final_suspend :: "frame \<Rightarrow> frame" where
  "final_suspend f = f\<lparr>m_done := 1, m_next := m_previous f\<rparr>"

text \<open>\<^verbatim>\<open>~Promise\<close>, which the scheduler calls explicitly on a frame that stays allocated.\<close>

definition Promise_dtor :: "frame \<Rightarrow> frame" where
  "Promise_dtor f = f\<lparr>m_data := reset (m_data f), m_next := None, m_previous := None\<rparr>"

subsection \<open>\<^verbatim>\<open>Task\<close>\<close>

record Task =
  m_handle :: PromiseHandle

text \<open>
  Calling a coroutine function: the frame is allocated, \<^verbatim>\<open>Promise()\<close> leaves the handles
  null and the data pointer empty, \<^verbatim>\<open>get_return_object\<close> clears \<open>m_done\<close> and wraps the
  handle in a \<^verbatim>\<open>Task\<close>, and \<^verbatim>\<open>initial_suspend\<close> suspends before any of the body.
\<close>

definition get_return_object :: "body \<Rightarrow> frame" where
  "get_return_object b =
     \<lparr>m_done = 0, m_data = None, m_next = None, m_previous = None,
      point = Run b, observed = []\<rparr>"

definition coroutine_call :: "body \<Rightarrow> heap \<Rightarrow> Task \<times> heap" where
  "coroutine_call b h = (\<lparr>m_handle = Some (length h)\<rparr>, h @ [Some (get_return_object b)])"

text \<open>
  \<^verbatim>\<open>handle.destroy()\<close>. A frame suspended inside a \<^verbatim>\<open>co_await\<close> holds the child's
  \<^verbatim>\<open>Task\<close> and the \<^verbatim>\<open>Awaiter\<close>; the \<^verbatim>\<open>Awaiter\<close> is destroyed first and nulls the
  \<^verbatim>\<open>Task\<close>'s handle, so the child's frame is not touched.
\<close>

definition destroy :: "PromiseHandle \<Rightarrow> heap \<Rightarrow> error + heap" where
  "destroy p h = (case promise h p of None \<Rightarrow> Inl InvalidHandle
                  | Some f \<Rightarrow> Inr (h[the p := None]))"

definition Task_dtor :: "Task \<Rightarrow> heap \<Rightarrow> error + Task \<times> heap" where
  "Task_dtor t h =
     (if m_handle t \<noteq> None
      then (case destroy (m_handle t) h of Inl e \<Rightarrow> Inl e
            | Inr h' \<Rightarrow> Inr (t\<lparr>m_handle := None\<rparr>, h'))
      else Inr (t\<lparr>m_handle := None\<rparr>, h))"

subsection \<open>\<^verbatim>\<open>Task::Awaiter\<close>\<close>

text \<open>The \<^verbatim>\<open>Awaiter\<close> holds a reference to the handle of the awaited \<^verbatim>\<open>Task\<close>.\<close>

datatype Awaiter = Awaiter (Awaiter_m_handle: PromiseHandle)

definition co_await :: "Task \<Rightarrow> Awaiter" where
  "co_await t = Awaiter (m_handle t)"

definition await_ready :: "Awaiter \<Rightarrow> bool" where
  "await_ready aw = False"

definition await_suspend :: "Awaiter \<Rightarrow> PromiseHandle \<Rightarrow> heap \<Rightarrow> error + heap" where
  "await_suspend aw parent h =
     (case (parent, Awaiter_m_handle aw) of
        (Some p, Some c) \<Rightarrow>
          (if promise h (Some p) = None \<or> promise h (Some c) = None then Inl InvalidHandle
           else Inr (modify c (\<lambda>f. f\<lparr>m_previous := Some p\<rparr>)
                       (modify p (\<lambda>f. f\<lparr>m_next := Some c\<rparr>) h)))
      | _ \<Rightarrow> Inl InvalidHandle)"

definition await_resume :: "Awaiter \<Rightarrow> heap \<Rightarrow> error + Result" where
  "await_resume aw h = (case promise h (Awaiter_m_handle aw) of
                          None \<Rightarrow> Inl InvalidHandle
                        | Some f \<Rightarrow> Inr (Result (m_data f)))"

text \<open>\<^verbatim>\<open>~Awaiter\<close> nulls the handle it refers to, which is the \<^verbatim>\<open>Task\<close>'s.\<close>

definition Awaiter_dtor :: "Task \<Rightarrow> Task" where
  "Awaiter_dtor t = t\<lparr>m_handle := None\<rparr>"

subsection \<open>Running a frame\<close>

text \<open>
  The end of a \<^verbatim>\<open>co_await\<close> expression in frame \<open>a\<close>: \<^verbatim>\<open>await_resume\<close> builds the
  \<^verbatim>\<open>Result\<close> from the child's promise, the body reads it at its expected type (if it
  reads it at all), and the temporaries die in reverse order: the \<^verbatim>\<open>Awaiter\<close>, then the
  \<^verbatim>\<open>Task\<close>.
\<close>

definition finish_await :: "addr \<Rightarrow> Task \<Rightarrow> ty option \<Rightarrow> heap \<Rightarrow> error + heap" where
  "finish_await a t T h =
     (case await_resume (co_await t) h of Inl e \<Rightarrow> Inl e
      | Inr r \<Rightarrow>
         (case (case T of None \<Rightarrow> Inr h
                | Some T' \<Rightarrow> (case result T' r of Inl e \<Rightarrow> Inl e
                              | Inr v \<Rightarrow> Inr (modify a (\<lambda>f. f\<lparr>observed := observed f @ [v]\<rparr>) h)))
          of Inl e \<Rightarrow> Inl e
          | Inr h1 \<Rightarrow> (case Task_dtor (Awaiter_dtor t) h1 of Inl e \<Rightarrow> Inl e
                       | Inr (_, h2) \<Rightarrow> Inr h2)))"

text \<open>
  Running the body of frame \<open>a\<close> up to its next suspension. Were \<^verbatim>\<open>await_ready\<close> to
  report true, the \<^verbatim>\<open>co_await\<close> would complete without suspending and the body would go
  on.
\<close>

fun exec :: "addr \<Rightarrow> body \<Rightarrow> heap \<Rightarrow> error + heap" where
  "exec a (CoYield rest) h =
     Inr (modify a (\<lambda>f. (yield_value a f)\<lparr>point := Run rest\<rparr>) h)"
| "exec a (CoAwait child T rest) h =
     (case coroutine_call child h of (t, h1) \<Rightarrow>
        if await_ready (co_await t)
        then (case finish_await a t T h1 of Inl e \<Rightarrow> Inl e | Inr h2 \<Rightarrow> exec a rest h2)
        else (case await_suspend (co_await t) (Some a) h1 of Inl e \<Rightarrow> Inl e
              | Inr h2 \<Rightarrow> Inr (modify a (\<lambda>f. f\<lparr>point := Awaiting (m_handle t) T rest\<rparr>) h2)))"
| "exec a (CoReturn v) h =
     Inr (modify a (\<lambda>f. (final_suspend (return_value v f))\<lparr>point := Final\<rparr>) h)"

text \<open>\<^verbatim>\<open>handle.resume()\<close>.\<close>

definition handle_resume :: "PromiseHandle \<Rightarrow> heap \<Rightarrow> error + heap" where
  "handle_resume p h =
     (case promise h p of None \<Rightarrow> Inl InvalidHandle
      | Some f \<Rightarrow>
         (case point f of
            Final \<Rightarrow> Inl ResumeDone
          | Run b \<Rightarrow> exec (the p) b h
          | Awaiting c T rest \<Rightarrow>
              (case finish_await (the p) \<lparr>m_handle = c\<rparr> T h of Inl e \<Rightarrow> Inl e
               | Inr h1 \<Rightarrow> exec (the p) rest h1)))"

section \<open>The scheduler\<close>

text \<open>
  \<open>m_size\<close> is a \<^verbatim>\<open>size_t\<close> that counts the elements of the vector; it cannot reach
  \<open>2 ^ 64\<close> before memory runs out, so it is a natural number here.
\<close>

record Scheduler =
  m_coroutines :: "PromiseHandle list"
  m_size :: nat

definition Scheduler_init :: Scheduler where
  "Scheduler_init = \<lparr>m_coroutines = [], m_size = 0\<rparr>"

definition schedule :: "Task \<Rightarrow> Scheduler \<Rightarrow> Task \<times> Scheduler" where
  "schedule task s =
     (task\<lparr>m_handle := None\<rparr>,
      s\<lparr>m_coroutines := m_coroutines s @ [m_handle task], m_size := m_size s + 1\<rparr>)"

text \<open>One iteration of the loop of \<^verbatim>\<open>Scheduler::resume\<close>, at index \<open>i\<close>.\<close>

definition visit :: "nat \<Rightarrow> Scheduler \<times> heap \<Rightarrow> error + Scheduler \<times> heap" where
  "visit i w =
     (case w of (s, h) \<Rightarrow>
        if length (m_coroutines s) \<le> i then Inl OutOfRange
        else
          (let handle = m_coroutines s ! i in
           case handle_resume handle h of Inl e \<Rightarrow> Inl e
           | Inr h1 \<Rightarrow>
              (case promise h1 handle of None \<Rightarrow> Inl InvalidHandle
               | Some pr \<Rightarrow>
                  if m_next pr \<noteq> None
                  then Inr (s\<lparr>m_coroutines := (m_coroutines s)[i := m_next pr]\<rparr>,
                            if m_done pr \<noteq> 0 then modify (the handle) Promise_dtor h1 else h1)
                  else Inr (s\<lparr>m_coroutines :=
                                 butlast ((m_coroutines s)[i := last (m_coroutines s)]),
                               m_size := m_size s - 1\<rparr>,
                            modify (the handle) Promise_dtor h1))))"

text \<open>
  The loop of \<^verbatim>\<open>Scheduler::resume\<close>: the bound \<open>m_size\<close> is read again before each
  iteration, and the index advances after every iteration, also after a removal.
\<close>

function resume_loop :: "nat \<Rightarrow> Scheduler \<times> heap \<Rightarrow> error + Scheduler \<times> heap" where
  "resume_loop i w =
     (if i < m_size (fst w)
      then (case visit i w of Inl e \<Rightarrow> Inl e | Inr w' \<Rightarrow> resume_loop (i + 1) w')
      else Inr w)"
  by pat_completeness auto
termination
proof (relation "measure (\<lambda>(i, w). m_size (fst w) - i)")
  show "wf (measure (\<lambda>(i, w). m_size (fst w) - i))"
    by simp
next
  fix i :: nat and w w' :: "Scheduler \<times> heap"
  assume lt: "i < m_size (fst w)" and v: "visit i w = Inr w'"
  from v have "m_size (fst w') \<le> m_size (fst w)"
    by (cases w) (auto simp: visit_def Let_def split: if_splits sum.splits option.splits)
  with lt show "((i + 1, w'), (i, w)) \<in> measure (\<lambda>(i, w). m_size (fst w) - i)"
    by simp
qed

declare resume_loop.simps [simp del]

text \<open>\<^verbatim>\<open>Scheduler::resume\<close>, the tick: the loop, then whether nothing is left.\<close>

definition resume :: "Scheduler \<times> heap \<Rightarrow> error + bool \<times> Scheduler \<times> heap" where
  "resume w = (case resume_loop 0 w of Inl e \<Rightarrow> Inl e
               | Inr w' \<Rightarrow> Inr (m_size (fst w') = 0, w'))"

text \<open>Calling \<^verbatim>\<open>resume\<close> again and again, as the owner of the scheduler does.\<close>

fun ticks :: "nat \<Rightarrow> Scheduler \<times> heap \<Rightarrow> error + Scheduler \<times> heap" where
  "ticks 0 w = Inr w"
| "ticks (Suc n) w = (case resume w of Inl e \<Rightarrow> Inl e | Inr (_, w') \<Rightarrow> ticks n w')"

text \<open>Creating a task from a body and handing it to the scheduler.\<close>

definition submit :: "body \<Rightarrow> Scheduler \<times> heap \<Rightarrow> Scheduler \<times> heap" where
  "submit b w = (case w of (s, h) \<Rightarrow>
                   case coroutine_call b h of (t, h') \<Rightarrow> (snd (schedule t s), h'))"

fun submit_all :: "body list \<Rightarrow> Scheduler \<times> heap \<Rightarrow> Scheduler \<times> heap" where
  "submit_all [] w = w"
| "submit_all (b # bs) w = submit_all bs (submit b w)"

text \<open>Resuming one handle several times in a row.\<close>

fun resumes :: "nat \<Rightarrow> PromiseHandle \<Rightarrow> heap \<Rightarrow> error + heap" where
  "resumes 0 p h = Inr h"
| "resumes (Suc n) p h = (case handle_resume p h of Inl e \<Rightarrow> Inl e | Inr h' \<Rightarrow> resumes n p h')"

text \<open>A body of \<open>n\<close> pauses in sequence and no await, returning \<open>v\<close>.\<close>

fun pauses :: "nat \<Rightarrow> val \<Rightarrow> body" where
  "pauses 0 v = CoReturn v"
| "pauses (Suc n) v = CoYield (pauses n v)"

text \<open>The scenario of a root that awaits a child which returns the integer 42 at once.\<close>

definition child_B :: body where
  "child_B = CoReturn (VInt 42)"

definition root_A :: body where
  "root_A = CoAwait child_B (Some TInt) (CoReturn (VInt 0))"

text \<open>What a run of ticks leaves: the live count, and what a frame has read so far.\<close>

definition live :: "error + Scheduler \<times> heap \<Rightarrow> error + nat" where
  "live r = (case r of Inl e \<Rightarrow> Inl e | Inr w \<Rightarrow> Inr (m_size (fst w)))"

definition seen :: "addr \<Rightarrow> error + Scheduler \<times> heap \<Rightarrow> error + val list" where
  "seen a r = (case r of Inl e \<Rightarrow> Inl e
               | Inr w \<Rightarrow> (case promise (snd w) (Some a) of None \<Rightarrow> Inl InvalidHandle
                           | Some f \<Rightarrow> Inr (observed f)))"

text \<open>
  States of the run of independent single-pause tasks with values \<open>vs\<close>, submitted to an
  empty scheduler with an empty frame store: the scheduler holding handles \<open>0 .. k - 1\<close>,
  the frame of a task that has been resumed once and has paused, and the frame store in
  which the first \<open>i\<close> tasks have paused and the others have not been resumed yet.
\<close>

definition paused_once :: "addr \<Rightarrow> val \<Rightarrow> frame" where
  "paused_once a v = (get_return_object (CoReturn v))\<lparr>m_next := Some a\<rparr>"

definition roots :: "nat \<Rightarrow> Scheduler" where
  "roots k = \<lparr>m_coroutines = map Some [0..<k], m_size = k\<rparr>"

definition pausing :: "nat \<Rightarrow> val list \<Rightarrow> heap" where
  "pausing i vs = map (\<lambda>j. Some (if j < i then paused_once j (vs ! j)
                                   else get_return_object (pauses 1 (vs ! j))))
                      [0..<length vs]"

section \<open>Facts about the frame store\<close>

lemma promise_valid: "promise h (Some a) = Some f \<Longrightarrow> a < length h \<and> h ! a = Some f"
  by (auto simp: promise_def split: if_splits)

lemma promise_modify_same:
  "promise h (Some a) = Some f \<Longrightarrow> promise (modify a g h) (Some a) = Some (g f)"
  by (auto simp: promise_def modify_def split: if_splits)

lemma promise_modify_other:
  "a \<noteq> b \<Longrightarrow> promise (modify a g h) (Some b) = promise h (Some b)"
  by (auto simp: promise_def modify_def split: if_splits option.splits)

lemma length_modify [simp]: "length (modify a g h) = length h"
  by (simp add: modify_def split: option.splits)

lemma promise_append_new: "promise (h @ [x]) (Some (length h)) = x"
  by (simp add: promise_def)

lemma promise_append_old:
  "promise h (Some a) = Some f \<Longrightarrow> promise (h @ [x]) (Some a) = Some f"
  by (auto simp: promise_def nth_append split: if_splits)

section \<open>One resumption\<close>

lemma resume_CoYield:
  assumes "promise h (Some a) = Some f" and "point f = Run (CoYield rest)"
  shows "handle_resume (Some a) h
           = Inr (modify a (\<lambda>f. (yield_value a f)\<lparr>point := Run rest\<rparr>) h)"
  using assms by (simp add: handle_resume_def)

lemma resume_CoReturn:
  assumes "promise h (Some a) = Some f" and "point f = Run (CoReturn v)"
  shows "handle_resume (Some a) h
           = Inr (modify a (\<lambda>f. (final_suspend (return_value v f))\<lparr>point := Final\<rparr>) h)"
  using assms by (simp add: handle_resume_def)

section \<open>The loop of the scheduler\<close>

lemma visit_size_le: "visit i w = Inr w' \<Longrightarrow> m_size (fst w') \<le> m_size (fst w)"
  by (cases w) (auto simp: visit_def Let_def split: if_splits sum.splits option.splits)

lemma resume_loop_size_le: "resume_loop i w = Inr w' \<Longrightarrow> m_size (fst w') \<le> m_size (fst w)"
proof (induction i w rule: resume_loop.induct)
  case (1 i w)
  show ?case
  proof (cases "i < m_size (fst w)")
    case False
    with "1.prems" show ?thesis by (simp add: resume_loop.simps)
  next
    case True
    with "1.prems" obtain w1 where v: "visit i w = Inr w1" and l: "resume_loop (i + 1) w1 = Inr w'"
      by (auto simp: resume_loop.simps [of i w] split: sum.splits)
    from "1.IH" [OF True v l] visit_size_le [OF v] show ?thesis by simp
  qed
qed

lemma resume_never_grows:
  "resume w = Inr (b, w') \<Longrightarrow> m_size (fst w') \<le> m_size (fst w) \<and> b = (m_size (fst w') = 0)"
  by (auto simp: resume_def split: sum.splits dest: resume_loop_size_le)

lemma visit_yield:
  assumes "i < length (m_coroutines s)" and "m_coroutines s ! i = Some a"
      and "promise h (Some a) = Some f" and "point f = Run (CoYield rest)" and "m_done f = 0"
  shows "visit i (s, h) = Inr (s, modify a (\<lambda>f. (yield_value a f)\<lparr>point := Run rest\<rparr>) h)"
proof -
  have "(m_coroutines s)[i := Some a] = m_coroutines s"
    using assms(2) by (metis list_update_id)
  then show ?thesis
    using assms
    by (simp add: visit_def resume_CoYield promise_modify_same yield_value_def)
qed

lemma visit_return_root:
  assumes "i < length (m_coroutines s)" and "m_coroutines s ! i = Some a"
      and "promise h (Some a) = Some f" and "point f = Run (CoReturn v)"
      and "m_previous f = None"
  shows "visit i (s, h)
           = Inr (s\<lparr>m_coroutines := butlast ((m_coroutines s)[i := last (m_coroutines s)]),
                    m_size := m_size s - 1\<rparr>,
                  modify a Promise_dtor
                    (modify a (\<lambda>f. (final_suspend (return_value v f))\<lparr>point := Final\<rparr>) h))"
  using assms
  by (simp add: visit_def resume_CoReturn promise_modify_same final_suspend_def return_value_def)

lemma half_step:
  fixes n i :: nat
  assumes "i < n"
  shows "(n - 1) - ((n - 1) - (i + 1) + 1) div 2 = n - (n - i + 1) div 2"
proof -
  from assms obtain d where n: "n = Suc (i + d)"
    using less_iff_Suc_add by auto
  show ?thesis
  proof (cases d)
    case 0
    with n show ?thesis by simp
  next
    case (Suc e)
    have "Suc (Suc (Suc e)) div 2 = Suc (Suc e div 2)" by simp
    moreover have "Suc e div 2 \<le> Suc e" by simp
    ultimately show ?thesis using n Suc by simp
  qed
qed

lemma half_up: "n - (n + 1) div 2 = n div (2::nat)"
  by linarith

text \<open>
  A tick over slots that all hold distinct roots about to run their \<^verbatim>\<open>co_return\<close>:
  every visit removes a slot and advances the index, so the loop, started at index \<open>i\<close>
  with \<open>m_size\<close> slots, visits only every second one of the slots from \<open>i\<close> on.
\<close>

lemma resume_loop_finishing:
  assumes "length (m_coroutines s) = m_size s"
      and "\<And>k l. i \<le> k \<Longrightarrow> k < l \<Longrightarrow> l < m_size s \<Longrightarrow> m_coroutines s ! k \<noteq> m_coroutines s ! l"
      and "\<And>k. i \<le> k \<Longrightarrow> k < m_size s \<Longrightarrow>
             \<exists>a f v. m_coroutines s ! k = Some a \<and> promise h (Some a) = Some f \<and>
                     point f = Run (CoReturn v) \<and> m_previous f = None"
  shows "\<exists>s' h'. resume_loop i (s, h) = Inr (s', h') \<and>
                 m_size s' = m_size s - (m_size s - i + 1) div 2"
  using assms
proof (induction d \<equiv> "m_size s - i" arbitrary: i s h rule: less_induct)
  case less
  show ?case
  proof (cases "i < m_size s")
    case False
    then show ?thesis by (simp add: resume_loop.simps)
  next
    case True
    let ?cs = "m_coroutines s"
    from less.prems(3) [of i] True obtain a f v where
      slot: "?cs ! i = Some a" and fr: "promise h (Some a) = Some f"
      and pt: "point f = Run (CoReturn v)" and root: "m_previous f = None"
      by auto
    let ?s1 = "s\<lparr>m_coroutines := butlast (?cs[i := last ?cs]), m_size := m_size s - 1\<rparr>"
    let ?h1 = "modify a Promise_dtor
                 (modify a (\<lambda>f. (final_suspend (return_value v f))\<lparr>point := Final\<rparr>) h)"
    have v: "visit i (s, h) = Inr (?s1, ?h1)"
      using True less.prems(1) slot fr pt root by (intro visit_return_root) simp_all
    have nth1: "m_coroutines ?s1 ! k = ?cs ! k" if "i < k" "k < m_size s - 1" for k
      using that less.prems(1) by (simp add: nth_butlast)
    have len1: "length (m_coroutines ?s1) = m_size ?s1"
      using less.prems(1) by simp
    have dist1: "m_coroutines ?s1 ! k \<noteq> m_coroutines ?s1 ! l"
      if "i + 1 \<le> k" "k < l" "l < m_size ?s1" for k l
    proof -
      from that have "m_coroutines ?s1 ! k = ?cs ! k"
        by (intro nth1) simp_all
      moreover from that have "m_coroutines ?s1 ! l = ?cs ! l"
        by (intro nth1) simp_all
      moreover from that have "?cs ! k \<noteq> ?cs ! l"
        by (intro less.prems(2)) simp_all
      ultimately show ?thesis by simp
    qed
    have fr1: "\<exists>b g u. m_coroutines ?s1 ! k = Some b \<and> promise ?h1 (Some b) = Some g \<and>
                 point g = Run (CoReturn u) \<and> m_previous g = None"
      if "i + 1 \<le> k" "k < m_size ?s1" for k
    proof -
      from that have k: "i \<le> k" "i < k" "k < m_size s" "k < m_size s - 1" by simp_all
      from less.prems(3) [OF k(1,3)] obtain b g u where
        b: "?cs ! k = Some b" "promise h (Some b) = Some g" "point g = Run (CoReturn u)"
           "m_previous g = None"
        by auto
      from less.prems(2) [of i k] k slot b(1) have "a \<noteq> b" by auto
      then have "promise ?h1 (Some b) = Some g"
        using b(2) by (simp add: promise_modify_other)
      with b nth1 [OF k(2,4)] show ?thesis by simp
    qed
    have "\<exists>s' h'. resume_loop (i + 1) (?s1, ?h1) = Inr (s', h') \<and>
            m_size s' = m_size ?s1 - (m_size ?s1 - (i + 1) + 1) div 2"
      using True by (intro less.hyps len1 dist1 fr1) simp_all
    then obtain s' h' where l: "resume_loop (i + 1) (?s1, ?h1) = Inr (s', h')"
      and sz: "m_size s' = m_size ?s1 - (m_size ?s1 - (i + 1) + 1) div 2"
      by blast
    have "resume_loop i (s, h) = Inr (s', h')"
      using True v l by (simp add: resume_loop.simps [of i "(s, h)"])
    moreover have "m_size s' = m_size s - (m_size s - i + 1) div 2"
      using sz half_step [OF True] by simp
    ultimately show ?thesis by blast
  qed
qed

lemma ticks_idle: "m_size s = 0 \<Longrightarrow> ticks k (s, h) = Inr (s, h)"
  by (induction k) (simp_all add: resume_def resume_loop.simps)

section \<open>The completion cell\<close>

lemma result_hpp_eq_result: "result_hpp T r = result T r"
  by (cases r; cases "Result_m_data r")
     (auto simp: result_hpp_def result_def cast_val_def cast_ptr_def get_void_def
                 get_typed_def static_pointer_cast_def)

text \<open>
  Claim C4. When a frame finishes with \<^verbatim>\<open>co_return v\<close>, the \<^verbatim>\<open>Result\<close> that
  \<^verbatim>\<open>await_resume\<close> builds from its promise right afterwards, read at the type of \<open>v\<close>
  with \<^verbatim>\<open>result<T>\<close> of \<^verbatim>\<open>result.hpp\<close>, is exactly \<open>v\<close>.
\<close>

theorem finish_read_roundtrip:
  assumes "promise h (Some a) = Some f" and "point f = Run (CoReturn v)"
  shows "\<exists>h' r. handle_resume (Some a) h = Inr h' \<and>
                 await_resume (Awaiter (Some a)) h' = Inr r \<and>
                 result_hpp (type_of v) r = Inr v"
  using assms
  by (simp add: handle_resume_def await_resume_def promise_modify_same result_hpp_def
                get_typed_def static_pointer_cast_def return_value_def final_suspend_def
                make_shared_def)

theorem finish_read_roundtrip_witness:
  "promise (snd (coroutine_call (CoReturn (VInt 42)) [])) (Some 0)
     = Some (get_return_object (CoReturn (VInt 42))) \<and>
   point (get_return_object (CoReturn (VInt 42))) = Run (CoReturn (VInt 42)) \<and>
   (\<exists>h' r. handle_resume (Some 0) (snd (coroutine_call (CoReturn (VInt 42)) [])) = Inr h' \<and>
            await_resume (Awaiter (Some 0)) h' = Inr r \<and> result_hpp TInt r = Inr (VInt 42))"
  using finish_read_roundtrip [of "snd (coroutine_call (CoReturn (VInt 42)) [])" 0
                                   "get_return_object (CoReturn (VInt 42))" "VInt 42"]
  by (simp add: coroutine_call_def promise_def get_return_object_def)

text \<open>
  Claim C10. On a data pointer made by \<^verbatim>\<open>return_value\<close> from a value \<open>v\<close>, and at the
  type of \<open>v\<close>, \<^verbatim>\<open>result<T>\<close> of \<^verbatim>\<open>result.hpp\<close> (through \<^verbatim>\<open>static_pointer_cast\<close>) and
  \<^verbatim>\<open>result<T>\<close> of the single header (through the raw pointer cast) return the same
  value, which is \<open>v\<close>.
\<close>

theorem read_implementations_agree:
  "result_hpp (type_of v) (Result (m_data (return_value v f))) =
     result (type_of v) (Result (m_data (return_value v f))) \<and>
   result (type_of v) (Result (m_data (return_value v f))) = Inr v"
  by (simp add: result_hpp_def result_def cast_val_def cast_ptr_def get_void_def
                get_typed_def static_pointer_cast_def return_value_def make_shared_def)

section \<open>Awaiting a child\<close>

text \<open>
  Claim C5. \<^verbatim>\<open>await_ready\<close> is false for every awaiter, so a frame that reaches
  \<^verbatim>\<open>co_await child()\<close> suspends there: after the resumption the parent waits inside the
  await with its \<open>m_next\<close> set to the child's new frame, and the child, which has not run,
  has its \<open>m_previous\<close> set to the parent.
\<close>

theorem await_suspends_and_links:
  assumes "promise h (Some a) = Some f" and "point f = Run (CoAwait child T rest)"
  shows "await_ready aw = False \<and>
         (\<exists>h'. handle_resume (Some a) h = Inr h' \<and>
            promise h' (Some a)
              = Some (f\<lparr>m_next := Some (length h),
                        point := Awaiting (Some (length h)) T rest\<rparr>) \<and>
            promise h' (Some (length h))
              = Some ((get_return_object child)\<lparr>m_previous := Some a\<rparr>))"
proof -
  from assms(1) have a: "a < length h" "a \<noteq> length h"
    by (auto dest: promise_valid)
  let ?h1 = "h @ [Some (get_return_object child)]"
  have p1: "promise ?h1 (Some a) = Some f"
    using assms(1) by (rule promise_append_old)
  have c1: "promise ?h1 (Some (length h)) = Some (get_return_object child)"
    by (rule promise_append_new)
  show ?thesis
    using a p1 c1 assms
    by (simp add: handle_resume_def await_ready_def co_await_def coroutine_call_def
                  await_suspend_def promise_modify_same promise_modify_other)
qed

theorem await_suspends_and_links_witness:
  "promise [Some (get_return_object root_A)] (Some 0) = Some (get_return_object root_A) \<and>
   point (get_return_object root_A) = Run (CoAwait child_B (Some TInt) (CoReturn (VInt 0))) \<and>
   await_ready (Awaiter (Some 1)) = False \<and>
   (\<exists>h'. handle_resume (Some 0) [Some (get_return_object root_A)] = Inr h' \<and>
      promise h' (Some 0)
        = Some ((get_return_object root_A)
                  \<lparr>m_next := Some 1, point := Awaiting (Some 1) (Some TInt) (CoReturn (VInt 0))\<rparr>) \<and>
      promise h' (Some 1) = Some ((get_return_object child_B)\<lparr>m_previous := Some 0\<rparr>))"
  using await_suspends_and_links
    [of "[Some (get_return_object root_A)]" 0 "get_return_object root_A"
        child_B "Some TInt" "CoReturn (VInt 0)" "Awaiter (Some 1)"]
  by (simp add: promise_def get_return_object_def root_A_def)

section \<open>Running to completion\<close>

text \<open>
  Claim C6. When a frame runs its \<^verbatim>\<open>co_return\<close>, its \<open>m_done\<close> becomes 1 and its
  \<open>m_next\<close> becomes what its \<open>m_previous\<close> was. The scheduler, visiting the slot that holds
  this frame, then puts the parent into the slot, so the parent is what the slot resumes
  next; for a frame with no parent \<open>m_next\<close> is null and the slot is removed.
\<close>

theorem completion_hands_over_to_parent:
  assumes "promise h (Some a) = Some f" and "point f = Run (CoReturn v)"
      and "i < length (m_coroutines s)" and "m_coroutines s ! i = Some a"
  shows "\<exists>h1 f1. handle_resume (Some a) h = Inr h1 \<and> promise h1 (Some a) = Some f1 \<and>
           m_done f1 = 1 \<and> m_next f1 = m_previous f \<and>
           (case m_previous f of
              Some p \<Rightarrow> \<exists>h2. visit i (s, h)
                                = Inr (s\<lparr>m_coroutines := (m_coroutines s)[i := Some p]\<rparr>, h2)
            | None \<Rightarrow> m_next f1 = None \<and>
                (\<exists>h2. visit i (s, h)
                         = Inr (s\<lparr>m_coroutines :=
                                     butlast ((m_coroutines s)[i := last (m_coroutines s)]),
                                   m_size := m_size s - 1\<rparr>, h2)))"
  using assms
  by (cases "m_previous f")
     (simp_all add: resume_CoReturn promise_modify_same visit_def final_suspend_def
                    return_value_def)

theorem completion_hands_over_to_parent_witness:
  "promise [Some (get_return_object root_A),
            Some ((get_return_object child_B)\<lparr>m_previous := Some 0\<rparr>)] (Some 1)
     = Some ((get_return_object child_B)\<lparr>m_previous := Some 0\<rparr>) \<and>
   point ((get_return_object child_B)\<lparr>m_previous := Some 0\<rparr>) = Run (CoReturn (VInt 42)) \<and>
   0 < length (m_coroutines \<lparr>m_coroutines = [Some 1], m_size = 1\<rparr>) \<and>
   m_coroutines \<lparr>m_coroutines = [Some 1], m_size = 1\<rparr> ! 0 = Some 1 \<and>
   (\<exists>h1 f1. handle_resume (Some 1)
               [Some (get_return_object root_A),
                Some ((get_return_object child_B)\<lparr>m_previous := Some 0\<rparr>)] = Inr h1 \<and>
      promise h1 (Some 1) = Some f1 \<and> m_done f1 = 1 \<and> m_next f1 = Some 0 \<and>
      (\<exists>h2. visit 0 (\<lparr>m_coroutines = [Some 1], m_size = 1\<rparr>,
                      [Some (get_return_object root_A),
                       Some ((get_return_object child_B)\<lparr>m_previous := Some 0\<rparr>)])
               = Inr (\<lparr>m_coroutines = [Some 0], m_size = 1\<rparr>, h2)))"
  using completion_hands_over_to_parent
    [of "[Some (get_return_object root_A),
          Some ((get_return_object child_B)\<lparr>m_previous := Some 0\<rparr>)]" 1
        "(get_return_object child_B)\<lparr>m_previous := Some 0\<rparr>" "VInt 42" 0
        "\<lparr>m_coroutines = [Some 1], m_size = 1\<rparr>"]
  by (simp add: promise_def get_return_object_def child_B_def)

section \<open>Pauses\<close>

lemma resumes_pauses_more:
  "promise h (Some a) = Some f \<Longrightarrow> point f = Run (pauses n v) \<Longrightarrow> m_done f = 0 \<Longrightarrow> k \<le> n \<Longrightarrow>
   \<exists>h' f'. resumes k (Some a) h = Inr h' \<and> promise h' (Some a) = Some f' \<and>
           point f' = Run (pauses (n - k) v) \<and> m_done f' = 0"
proof (induction k arbitrary: h f n)
  case 0
  then show ?case by simp
next
  case (Suc k)
  then obtain m where n: "n = Suc m" by (cases n) auto
  let ?g = "\<lambda>f. (yield_value a f)\<lparr>point := Run (pauses m v)\<rparr>"
  have r: "handle_resume (Some a) h = Inr (modify a ?g h)"
    using Suc.prems(1,2) n by (simp add: resume_CoYield)
  have p: "promise (modify a ?g h) (Some a) = Some (?g f)"
    using Suc.prems(1) by (rule promise_modify_same)
  have "\<exists>h' f'. resumes k (Some a) (modify a ?g h) = Inr h' \<and> promise h' (Some a) = Some f' \<and>
           point f' = Run (pauses (m - k) v) \<and> m_done f' = 0"
    using Suc.prems n by (intro Suc.IH [OF p]) (simp_all add: yield_value_def)
  then show ?case using r n by simp
qed

lemma resumes_pauses_all:
  "promise h (Some a) = Some f \<Longrightarrow> point f = Run (pauses n v) \<Longrightarrow>
   \<exists>h' f'. resumes (Suc n) (Some a) h = Inr h' \<and> promise h' (Some a) = Some f' \<and>
           point f' = Final \<and> m_done f' = 1 \<and> m_data f' = Some v"
proof (induction n arbitrary: h f)
  case 0
  then show ?case
    by (simp add: resume_CoReturn promise_modify_same final_suspend_def return_value_def
                  make_shared_def)
next
  case (Suc n)
  let ?g = "\<lambda>f. (yield_value a f)\<lparr>point := Run (pauses n v)\<rparr>"
  have r: "handle_resume (Some a) h = Inr (modify a ?g h)"
    using Suc.prems by (simp add: resume_CoYield)
  have p: "promise (modify a ?g h) (Some a) = Some (?g f)"
    using Suc.prems(1) by (rule promise_modify_same)
  have "\<exists>h' f'. resumes (Suc n) (Some a) (modify a ?g h) = Inr h' \<and>
           promise h' (Some a) = Some f' \<and> point f' = Final \<and> m_done f' = 1 \<and>
           m_data f' = Some v"
    by (rule Suc.IH [OF p]) simp
  with r show ?case by simp
qed

lemma single_root_pauses:
  "promise h (Some a) = Some f \<Longrightarrow> point f = Run (pauses n v) \<Longrightarrow> m_done f = 0 \<Longrightarrow>
   m_previous f = None \<Longrightarrow>
   live (ticks k (\<lparr>m_coroutines = [Some a], m_size = 1\<rparr>, h)) = Inr (if k \<le> n then 1 else 0)"
proof (induction n arbitrary: k h f)
  case 0
  show ?case
  proof (cases k)
    case 0
    then show ?thesis by (simp add: live_def)
  next
    case (Suc k')
    let ?h1 = "modify a Promise_dtor
                 (modify a (\<lambda>f. (final_suspend (return_value v f))\<lparr>point := Final\<rparr>) h)"
    have "visit 0 (\<lparr>m_coroutines = [Some a], m_size = 1\<rparr>, h)
            = Inr (\<lparr>m_coroutines = [], m_size = 0\<rparr>, ?h1)"
      using "0.prems" by (subst visit_return_root [where a = a and f = f and v = v]) simp_all
    then have "resume (\<lparr>m_coroutines = [Some a], m_size = 1\<rparr>, h)
                 = Inr (True, \<lparr>m_coroutines = [], m_size = 0\<rparr>, ?h1)"
      by (simp add: resume_def resume_loop.simps)
    then show ?thesis
      using Suc by (simp add: ticks_idle live_def)
  qed
next
  case (Suc n)
  show ?case
  proof (cases k)
    case 0
    then show ?thesis by (simp add: live_def)
  next
    case k: (Suc k')
    let ?g = "\<lambda>f. (yield_value a f)\<lparr>point := Run (pauses n v)\<rparr>"
    have "visit 0 (\<lparr>m_coroutines = [Some a], m_size = 1\<rparr>, h)
            = Inr (\<lparr>m_coroutines = [Some a], m_size = 1\<rparr>, modify a ?g h)"
      using Suc.prems by (subst visit_yield [where a = a and f = f]) simp_all
    then have r: "resume (\<lparr>m_coroutines = [Some a], m_size = 1\<rparr>, h)
                 = Inr (False, \<lparr>m_coroutines = [Some a], m_size = 1\<rparr>, modify a ?g h)"
      by (simp add: resume_def resume_loop.simps)
    have p: "promise (modify a ?g h) (Some a) = Some (?g f)"
      using Suc.prems(1) by (rule promise_modify_same)
    have "live (ticks k' (\<lparr>m_coroutines = [Some a], m_size = 1\<rparr>, modify a ?g h))
            = Inr (if k' \<le> n then 1 else 0)"
      using Suc.prems by (intro Suc.IH [OF p]) (simp_all add: yield_value_def)
    then show ?thesis
      using k r by simp
  qed
qed

lemma submitted_root_pauses:
  "live (ticks k (submit (pauses n v) (Scheduler_init, []))) = Inr (if k \<le> n then 1 else 0)"
proof -
  have "submit (pauses n v) (Scheduler_init, [])
          = (\<lparr>m_coroutines = [Some 0], m_size = 1\<rparr>, [Some (get_return_object (pauses n v))])"
    by (simp add: submit_def coroutine_call_def schedule_def Scheduler_init_def)
  moreover have "live (ticks k (\<lparr>m_coroutines = [Some 0], m_size = 1\<rparr>,
                                [Some (get_return_object (pauses n v))]))
                   = Inr (if k \<le> n then 1 else 0)"
    by (rule single_root_pauses [where f = "get_return_object (pauses n v)"])
       (simp_all add: promise_def get_return_object_def)
  ultimately show ?thesis by simp
qed

text \<open>
  Claim C7. A task whose body is \<open>n\<close> pauses followed by its \<^verbatim>\<open>co_return\<close>, and no await,
  is not finished after any \<open>k \<le> n\<close> resumptions and is finished, with its value stored,
  after \<open>n + 1\<close>; with \<open>n = 0\<close> the first resumption finishes it. Scheduled alone, it is
  live after \<open>k\<close> ticks exactly when \<open>k \<le> n\<close>.
\<close>

theorem pauses_need_one_more_resumption:
  assumes "coroutine_call (pauses n v) h = (t, h0)"
  shows "(\<forall>k\<le>n. \<exists>h' f'. resumes k (m_handle t) h0 = Inr h' \<and>
                    promise h' (m_handle t) = Some f' \<and> m_done f' = 0 \<and> point f' \<noteq> Final) \<and>
         (\<exists>h' f'. resumes (Suc n) (m_handle t) h0 = Inr h' \<and>
                    promise h' (m_handle t) = Some f' \<and> m_done f' = 1 \<and> point f' = Final \<and>
                    m_data f' = Some v) \<and>
         live (ticks j (submit (pauses n v) (Scheduler_init, []))) = Inr (if j \<le> n then 1 else 0)"
proof -
  let ?a = "length h" and ?f = "get_return_object (pauses n v)"
  from assms have t: "m_handle t = Some ?a" and h0: "h0 = h @ [Some ?f]"
    by (auto simp: coroutine_call_def)
  have p: "promise h0 (Some ?a) = Some ?f"
    by (simp add: h0 promise_def)
  have f: "point ?f = Run (pauses n v)" "m_done ?f = 0"
    by (simp_all add: get_return_object_def)
  have early: "\<exists>h' f'. resumes k (Some ?a) h0 = Inr h' \<and> promise h' (Some ?a) = Some f' \<and>
                 m_done f' = 0 \<and> point f' \<noteq> Final" if "k \<le> n" for k
    using resumes_pauses_more [OF p f that] by fastforce
  from early resumes_pauses_all [OF p f(1)] submitted_root_pauses [of j n v] show ?thesis
    unfolding t by blast
qed

theorem pauses_need_one_more_resumption_witness:
  "coroutine_call (pauses 2 (VInt 7)) []
     = (\<lparr>m_handle = Some 0\<rparr>, [Some (get_return_object (pauses 2 (VInt 7)))]) \<and>
   (\<exists>h' f'. resumes 0 (Some 0) [Some (get_return_object (pauses 2 (VInt 7)))] = Inr h' \<and>
              promise h' (Some 0) = Some f' \<and> m_done f' = 0 \<and> point f' \<noteq> Final) \<and>
   (\<exists>h' f'. resumes 1 (Some 0) [Some (get_return_object (pauses 2 (VInt 7)))] = Inr h' \<and>
              promise h' (Some 0) = Some f' \<and> m_done f' = 0 \<and> point f' \<noteq> Final) \<and>
   (\<exists>h' f'. resumes 2 (Some 0) [Some (get_return_object (pauses 2 (VInt 7)))] = Inr h' \<and>
              promise h' (Some 0) = Some f' \<and> m_done f' = 0 \<and> point f' \<noteq> Final) \<and>
   (\<exists>h' f'. resumes 3 (Some 0) [Some (get_return_object (pauses 2 (VInt 7)))] = Inr h' \<and>
              promise h' (Some 0) = Some f' \<and> m_done f' = 1 \<and> point f' = Final \<and>
              m_data f' = Some (VInt 7)) \<and>
   live (ticks 2 (submit (pauses 2 (VInt 7)) (Scheduler_init, []))) = Inr 1 \<and>
   live (ticks 3 (submit (pauses 2 (VInt 7)) (Scheduler_init, []))) = Inr 0"
proof -
  have c: "coroutine_call (pauses 2 (VInt 7)) []
             = (\<lparr>m_handle = Some 0\<rparr>, [Some (get_return_object (pauses 2 (VInt 7)))])"
    by (simp add: coroutine_call_def)
  note th = pauses_need_one_more_resumption [OF c]
  from th have early: "\<And>k. k \<le> 2 \<Longrightarrow>
      \<exists>h' f'. resumes k (Some 0) [Some (get_return_object (pauses 2 (VInt 7)))] = Inr h' \<and>
              promise h' (Some 0) = Some f' \<and> m_done f' = 0 \<and> point f' \<noteq> Final"
    by simp
  from th have last: "\<exists>h' f'. resumes (Suc 2) (Some 0) [Some (get_return_object (pauses 2 (VInt 7)))] = Inr h' \<and>
              promise h' (Some 0) = Some f' \<and> m_done f' = 1 \<and> point f' = Final \<and>
              m_data f' = Some (VInt 7)"
    by simp
  from th have live: "\<And>j. live (ticks j (submit (pauses 2 (VInt 7)) (Scheduler_init, [])))
                        = Inr (if j \<le> 2 then 1 else 0)"
    by simp
  have three: "Suc 2 = 3" by simp
  show ?thesis
    using c early [of 0] early [of 1] early [of 2] last live [of 2] live [of 3]
    unfolding three by (intro conjI) simp_all
qed

section \<open>Ownership of frames\<close>

text \<open>
  Claim C9. \<^verbatim>\<open>schedule\<close> appends the task's handle to the scheduler's vector and leaves the
  task with a null handle, whose destructor then changes nothing. The destructor of a task
  that still owns the frame it was created with, never resumed, destroys that frame and
  touches nothing else: no frame is resumed, so none of the body runs. The destructor of a
  task with a null handle changes nothing.
\<close>

theorem task_ownership:
  "m_handle (fst (schedule t s)) = None \<and>
   m_coroutines (snd (schedule t s)) = m_coroutines s @ [m_handle t] \<and>
   m_size (snd (schedule t s)) = m_size s + 1 \<and>
   Task_dtor (fst (schedule t s)) h = Inr (fst (schedule t s), h) \<and>
   Task_dtor (fst (coroutine_call b h)) (snd (coroutine_call b h))
     = Inr ((fst (coroutine_call b h))\<lparr>m_handle := None\<rparr>, h @ [None]) \<and>
   Task_dtor (t\<lparr>m_handle := None\<rparr>) h = Inr (t\<lparr>m_handle := None\<rparr>, h)"
  by (simp add: schedule_def Task_dtor_def coroutine_call_def destroy_def promise_def)

section \<open>A root that awaits a child\<close>

text \<open>
  The root \<open>root_A\<close> awaits \<open>child_B\<close>, which returns 42 as soon as it runs, and reads the
  result as an integer. The first tick resumes the root, which creates the child and
  suspends; the second resumes the child, which finishes. The fields of a promise whose
  destructor the scheduler has called are read as the destructor left them.
\<close>

lemma ticks_add: "ticks (n + k) w = (case ticks k w of Inl e \<Rightarrow> Inl e | Inr w' \<Rightarrow> ticks n w')"
  by (induction k arbitrary: w) (auto split: sum.splits)

lemma root_A_tick1:
  "resume (submit root_A (Scheduler_init, []))
     = Inr (False, \<lparr>m_coroutines = [Some 1], m_size = 1\<rparr>,
        [Some \<lparr>m_done = 0, m_data = None, m_next = Some 1, m_previous = None,
               point = Awaiting (Some 1) (Some TInt) (CoReturn (VInt 0)), observed = []\<rparr>,
         Some \<lparr>m_done = 0, m_data = None, m_next = None, m_previous = Some 0,
               point = Run (CoReturn (VInt 42)), observed = []\<rparr>])"
  by code_simp

lemma root_A_child_resumed:
  "handle_resume (Some 1)
        [Some \<lparr>m_done = 0, m_data = None, m_next = Some 1, m_previous = None,
               point = Awaiting (Some 1) (Some TInt) (CoReturn (VInt 0)), observed = []\<rparr>,
         Some \<lparr>m_done = 0, m_data = None, m_next = None, m_previous = Some 0,
               point = Run (CoReturn (VInt 42)), observed = []\<rparr>]
     = Inr
        [Some \<lparr>m_done = 0, m_data = None, m_next = Some 1, m_previous = None,
               point = Awaiting (Some 1) (Some TInt) (CoReturn (VInt 0)), observed = []\<rparr>,
         Some \<lparr>m_done = 1, m_data = Some (VInt 42), m_next = Some 0, m_previous = Some 0,
               point = Final, observed = []\<rparr>]"
  by code_simp

lemma root_A_tick2:
  "resume (\<lparr>m_coroutines = [Some 1], m_size = 1\<rparr>,
        [Some \<lparr>m_done = 0, m_data = None, m_next = Some 1, m_previous = None,
               point = Awaiting (Some 1) (Some TInt) (CoReturn (VInt 0)), observed = []\<rparr>,
         Some \<lparr>m_done = 0, m_data = None, m_next = None, m_previous = Some 0,
               point = Run (CoReturn (VInt 42)), observed = []\<rparr>])
     = Inr (False, \<lparr>m_coroutines = [Some 0], m_size = 1\<rparr>,
        [Some \<lparr>m_done = 0, m_data = None, m_next = Some 1, m_previous = None,
               point = Awaiting (Some 1) (Some TInt) (CoReturn (VInt 0)), observed = []\<rparr>,
         Some \<lparr>m_done = 1, m_data = None, m_next = None, m_previous = None,
               point = Final, observed = []\<rparr>])"
  by code_simp

lemma root_A_ticks2:
  "ticks 2 (submit root_A (Scheduler_init, []))
     = Inr (\<lparr>m_coroutines = [Some 0], m_size = 1\<rparr>,
        [Some \<lparr>m_done = 0, m_data = None, m_next = Some 1, m_previous = None,
               point = Awaiting (Some 1) (Some TInt) (CoReturn (VInt 0)), observed = []\<rparr>,
         Some \<lparr>m_done = 1, m_data = None, m_next = None, m_previous = None,
               point = Final, observed = []\<rparr>])"
  by code_simp

lemma root_A_ticks3: "ticks 3 (submit root_A (Scheduler_init, [])) = Inl NullDeref"
  by code_simp

text \<open>
  Claim C2, as stated, at this scenario: after two ticks the live count is not 0 and the
  root has not read 42.
\<close>

theorem root_A_two_ticks_counterexample:
  "\<not> (live (ticks 2 (submit root_A (Scheduler_init, []))) = Inr 0 \<and>
      seen 0 (ticks 2 (submit root_A (Scheduler_init, []))) = Inr [VInt 42])"
  unfolding root_A_ticks2 by (simp add: live_def)

text \<open>
  Claim C2, amended. Each of the first two ticks returns false. After exactly two ticks
  the child has run to completion (its \<open>m_done\<close> is 1 and it sits at its final suspend
  point), the root's slot holds the root again, the root is still suspended inside its
  await and has read nothing yet, and the live count is 1.
\<close>

theorem root_A_after_two_ticks:
  "\<exists>w1 s h fA fB.
     resume (submit root_A (Scheduler_init, [])) = Inr (False, w1) \<and>
     resume w1 = Inr (False, s, h) \<and>
     ticks 2 (submit root_A (Scheduler_init, [])) = Inr (s, h) \<and>
     m_size s = 1 \<and> m_coroutines s = [Some 0] \<and>
     promise h (Some 0) = Some fA \<and> observed fA = [] \<and>
     point fA = Awaiting (Some 1) (Some TInt) (CoReturn (VInt 0)) \<and>
     promise h (Some 1) = Some fB \<and> m_done fB = 1 \<and> point fB = Final"
  unfolding root_A_ticks2 root_A_tick1
  by (simp add: root_A_tick2 [simplified] promise_def)

text \<open>
  Claim C3 at this scenario. When the child is resumed in the second tick, it stores 42 and
  points its \<open>m_next\<close> at the root. The scheduler then rewires the slot to the root and
  calls the child's \<^verbatim>\<open>~Promise\<close>: at the end of the second tick the child's data pointer
  is empty, while the root still waits inside its await and has read nothing. The third
  tick resumes the root, whose read of the result dereferences the empty pointer.
\<close>

theorem child_result_released_before_read:
  "handle_resume (Some 1)
        [Some \<lparr>m_done = 0, m_data = None, m_next = Some 1, m_previous = None,
               point = Awaiting (Some 1) (Some TInt) (CoReturn (VInt 0)), observed = []\<rparr>,
         Some \<lparr>m_done = 0, m_data = None, m_next = None, m_previous = Some 0,
               point = Run (CoReturn (VInt 42)), observed = []\<rparr>]
     = Inr
        [Some \<lparr>m_done = 0, m_data = None, m_next = Some 1, m_previous = None,
               point = Awaiting (Some 1) (Some TInt) (CoReturn (VInt 0)), observed = []\<rparr>,
         Some \<lparr>m_done = 1, m_data = Some (VInt 42), m_next = Some 0, m_previous = Some 0,
               point = Final, observed = []\<rparr>] \<and>
   ticks 2 (submit root_A (Scheduler_init, []))
     = Inr (\<lparr>m_coroutines = [Some 0], m_size = 1\<rparr>,
        [Some \<lparr>m_done = 0, m_data = None, m_next = Some 1, m_previous = None,
               point = Awaiting (Some 1) (Some TInt) (CoReturn (VInt 0)), observed = []\<rparr>,
         Some \<lparr>m_done = 1, m_data = None, m_next = None, m_previous = None,
               point = Final, observed = []\<rparr>]) \<and>
   ticks 3 (submit root_A (Scheduler_init, [])) = Inl NullDeref"
  using root_A_child_resumed root_A_ticks2 root_A_ticks3 by (intro conjI)

text \<open>
  Claim C8 at this scenario, a finite task graph whose bodies all terminate: the live
  count is 1 before the first tick and after the first and the second, and every longer
  run of ticks ends in the third tick's read through the empty pointer, so the live count
  never becomes 0. (That a tick never increases the live count, and returns whether it is
  0, is \<open>resume_never_grows\<close> above.)
\<close>

theorem root_A_never_retired:
  "live (ticks 0 (submit root_A (Scheduler_init, []))) = Inr 1 \<and>
   live (ticks 1 (submit root_A (Scheduler_init, []))) = Inr 1 \<and>
   live (ticks 2 (submit root_A (Scheduler_init, []))) = Inr 1 \<and>
   live (ticks (n + 3) (submit root_A (Scheduler_init, []))) = Inl NullDeref"
proof -
  have "live (ticks 0 (submit root_A (Scheduler_init, []))) = Inr 1"
       "live (ticks 1 (submit root_A (Scheduler_init, []))) = Inr 1"
       "live (ticks 2 (submit root_A (Scheduler_init, []))) = Inr 1"
    by code_simp+
  moreover have "live (ticks (n + 3) (submit root_A (Scheduler_init, []))) = Inl NullDeref"
    unfolding ticks_add root_A_ticks3 by (simp add: live_def)
  ultimately show ?thesis by (intro conjI)
qed

section \<open>Independent single-pause tasks\<close>

lemma submit_all_pauses:
  "length h = n \<Longrightarrow>
   submit_all (map (pauses 1) vs) (roots n, h)
     = (roots (n + length vs), h @ map (\<lambda>v. Some (get_return_object (pauses 1 v))) vs)"
proof (induction vs arbitrary: n h)
  case Nil
  then show ?case by simp
next
  case (Cons v vs)
  have "submit (pauses 1 v) (roots n, h)
          = (roots (Suc n), h @ [Some (get_return_object (pauses 1 v))])"
    using Cons.prems by (simp add: submit_def coroutine_call_def schedule_def roots_def)
  moreover have "length (h @ [Some (get_return_object (pauses 1 v))]) = Suc n"
    using Cons.prems by simp
  ultimately show ?case
    using Cons.IH [of "h @ [Some (get_return_object (pauses 1 v))]" "Suc n"] by simp
qed

lemma submitted_pauses:
  "submit_all (map (pauses 1) vs) (Scheduler_init, []) = (roots (length vs), pausing 0 vs)"
proof -
  have "Scheduler_init = roots 0"
    by (simp add: Scheduler_init_def roots_def)
  moreover have "map (\<lambda>v. Some (get_return_object (pauses 1 v))) vs = pausing 0 vs"
    unfolding pausing_def by (rule nth_equalityI) simp_all
  ultimately show ?thesis
    using submit_all_pauses [of "[]" 0 vs] by simp
qed

lemma first_tick_step:
  assumes "i < length vs"
  shows "visit i (roots (length vs), pausing i vs) = Inr (roots (length vs), pausing (Suc i) vs)"
proof -
  let ?f = "get_return_object (pauses 1 (vs ! i))"
  let ?g = "\<lambda>f. (yield_value i f)\<lparr>point := Run (CoReturn (vs ! i))\<rparr>"
  have p: "promise (pausing i vs) (Some i) = Some ?f"
    using assms by (simp add: promise_def pausing_def)
  have "visit i (roots (length vs), pausing i vs)
          = Inr (roots (length vs), modify i ?g (pausing i vs))"
    using assms p
    by (intro visit_yield [where f = ?f]) (simp_all add: roots_def get_return_object_def)
  moreover have "modify i ?g (pausing i vs) = pausing (Suc i) vs"
  proof (rule nth_equalityI)
    show "length (modify i ?g (pausing i vs)) = length (pausing (Suc i) vs)"
      by (simp add: pausing_def)
  next
    fix j assume "j < length (modify i ?g (pausing i vs))"
    then have j: "j < length vs" by (simp add: pausing_def)
    have m: "modify i ?g (pausing i vs) = (pausing i vs)[i := Some (?g ?f)]"
      using p by (simp add: modify_def)
    show "modify i ?g (pausing i vs) ! j = pausing (Suc i) vs ! j"
    proof (cases "j = i")
      case True
      with j show ?thesis
        unfolding m
        by (simp add: pausing_def paused_once_def get_return_object_def yield_value_def)
    next
      case False
      with j show ?thesis
        unfolding m by (simp add: pausing_def less_Suc_eq)
    qed
  qed
  ultimately show ?thesis by simp
qed

lemma first_tick_loop:
  "i \<le> length vs \<Longrightarrow>
   resume_loop i (roots (length vs), pausing i vs)
     = Inr (roots (length vs), pausing (length vs) vs)"
proof (induction d \<equiv> "length vs - i" arbitrary: i)
  case 0
  then show ?case by (simp add: resume_loop.simps roots_def)
next
  case (Suc d)
  then have i: "i < length vs" and d: "d = length vs - (i + 1)" and le: "i + 1 \<le> length vs"
    by simp_all
  from Suc.hyps(1) [OF d le] first_tick_step [OF i] i show ?case
    by (simp add: resume_loop.simps [of i] roots_def)
qed

lemma first_tick:
  "resume (roots (length vs), pausing 0 vs)
     = Inr (length vs = 0, roots (length vs), pausing (length vs) vs)"
  using first_tick_loop [of 0 vs] by (simp add: resume_def roots_def)

lemma second_tick:
  "\<exists>s h. resume (roots (length vs), pausing (length vs) vs) = Inr (m_size s = 0, s, h) \<and>
         m_size s = length vs div 2"
proof -
  have "\<exists>s' h'. resume_loop 0 (roots (length vs), pausing (length vs) vs) = Inr (s', h') \<and>
          m_size s' = m_size (roots (length vs)) - (m_size (roots (length vs)) - 0 + 1) div 2"
  proof (rule resume_loop_finishing)
    show "length (m_coroutines (roots (length vs))) = m_size (roots (length vs))"
      by (simp add: roots_def)
  next
    fix k l assume "k < l" "l < m_size (roots (length vs))"
    then show "m_coroutines (roots (length vs)) ! k \<noteq> m_coroutines (roots (length vs)) ! l"
      by (simp add: roots_def)
  next
    fix k assume "k < m_size (roots (length vs))"
    then show "\<exists>a f v. m_coroutines (roots (length vs)) ! k = Some a \<and>
             promise (pausing (length vs) vs) (Some a) = Some f \<and>
             point f = Run (CoReturn v) \<and> m_previous f = None"
      by (simp add: roots_def promise_def pausing_def paused_once_def get_return_object_def)
  qed
  then obtain s' h' where
    "resume_loop 0 (roots (length vs), pausing (length vs) vs) = Inr (s', h')"
    "m_size s' = length vs - (length vs + 1) div 2"
    by (auto simp: roots_def)
  moreover have "length vs - (length vs + 1) div 2 = length vs div 2"
    by (rule half_up)
  ultimately show ?thesis
    by (simp add: resume_def)
qed

lemma single_pause_tasks_two_ticks:
  "ticks 1 (submit_all (map (pauses 1) vs) (Scheduler_init, []))
     = Inr (roots (length vs), pausing (length vs) vs) \<and>
   live (ticks 2 (submit_all (map (pauses 1) vs) (Scheduler_init, []))) = Inr (length vs div 2)"
proof -
  obtain s h where 2: "resume (roots (length vs), pausing (length vs) vs) = Inr (m_size s = 0, s, h)"
    and sz: "m_size s = length vs div 2"
    using second_tick [of vs] by blast
  have t1: "ticks 1 w = (case resume w of Inl e \<Rightarrow> Inl e | Inr (_, w') \<Rightarrow> Inr w')" for w
    by (simp split: sum.splits)
  have t2: "ticks 2 w = (case resume w of Inl e \<Rightarrow> Inl e | Inr (_, w') \<Rightarrow> ticks 1 w')" for w
    by (simp add: numeral_2_eq_2 split: sum.splits)
  show ?thesis
    unfolding submitted_pauses t2 t1 first_tick
    by (simp add: 2 sz live_def)
qed

text \<open>
  Claim C1 at \<open>K = 2\<close>. After the first tick both tasks are live, each paused once. In the
  second tick the task in slot 0 finishes and the last handle is moved into slot 0; the
  index then advances to 1, which is no longer below \<open>m_size\<close>, so the moved task is not
  resumed: one task is still live after the second tick. (For any number of tasks,
  \<open>single_pause_tasks_two_ticks\<close> above gives the state after the first tick, where all
  are live and have paused once, and the live count after the second, which is half their
  number, rounded down.)
\<close>

theorem two_single_pause_tasks:
  "ticks 1 (submit_all [pauses 1 (VInt 1), pauses 1 (VInt 2)] (Scheduler_init, []))
     = Inr (\<lparr>m_coroutines = [Some 0, Some 1], m_size = 2\<rparr>,
        [Some \<lparr>m_done = 0, m_data = None, m_next = Some 0, m_previous = None,
               point = Run (CoReturn (VInt 1)), observed = []\<rparr>,
         Some \<lparr>m_done = 0, m_data = None, m_next = Some 1, m_previous = None,
               point = Run (CoReturn (VInt 2)), observed = []\<rparr>]) \<and>
   ticks 2 (submit_all [pauses 1 (VInt 1), pauses 1 (VInt 2)] (Scheduler_init, []))
     = Inr (\<lparr>m_coroutines = [Some 1], m_size = 1\<rparr>,
        [Some \<lparr>m_done = 1, m_data = None, m_next = None, m_previous = None,
               point = Final, observed = []\<rparr>,
         Some \<lparr>m_done = 0, m_data = None, m_next = Some 1, m_previous = None,
               point = Run (CoReturn (VInt 2)), observed = []\<rparr>]) \<and>
   live (ticks 2 (submit_all [pauses 1 (VInt 1), pauses 1 (VInt 2)] (Scheduler_init, []))) = Inr 1"
  by code_simp

end
